theory Spec2Isabelle
  imports Complex_Main "HOL-Library.Multiset"
begin

section \<open>FileClient.ts: data model\<close>

text \<open>
  A shallow embedding of the transfer code of \<^verbatim>\<open>sdk/storage/storage-file/src/FileClient.ts\<close>.
  Byte counts, offsets and sizes are JavaScript numbers holding integers; they are modelled
  as \<open>int\<close> (all values that occur stay far below \<open>2^53\<close>, where the arithmetic of the
  source is exact). An optional number (\<^verbatim>\<open>count?: number\<close>, \<^verbatim>\<open>options.rangeSize\<close>) is an
  \<open>int option\<close>, \<open>None\<close> standing for \<^verbatim>\<open>undefined\<close>. The abort signal, HTTP headers, metadata
  and the transferred bytes themselves take no part in any property below and are left out.
\<close>

text \<open>
  Modelled from the spec: the constants of \<^verbatim>\<open>utils/constants.ts\<close>, which is not among the
  sources. The values are the ones the doc comments of FileClient.ts give: a file is "up to
  1 TB", a range is at most "4 * 1024 * 1024 (4MB)", "5 parallelism will be used by
  default", and the default number of download retries "is 5".
\<close>

definition FILE_MAX_SIZE_BYTES :: int where
  "FILE_MAX_SIZE_BYTES = 1024 * 1024 * 1024 * 1024"

definition FILE_RANGE_MAX_SIZE_BYTES :: int where
  "FILE_RANGE_MAX_SIZE_BYTES = 4 * 1024 * 1024"

definition DEFAULT_HIGH_LEVEL_PARALLELISM :: int where
  "DEFAULT_HIGH_LEVEL_PARALLELISM = 5"

definition DEFAULT_MAX_DOWNLOAD_RETRY_REQUESTS :: int where
  "DEFAULT_MAX_DOWNLOAD_RETRY_REQUESTS = 5"

text \<open>
  Every \<^verbatim>\<open>throw new RangeError(...)\<close> of the file, one constructor per throw site
  (the two upload orchestrators share theirs, the messages being the same):
  \<^item> \<open>FileSizeOutOfRange\<close>: "File size must >= 0 and < FILE_MAX_SIZE_BYTES." (create)
  \<^item> \<open>MD5NeedsPartialDownload\<close>: "rangeGetContentMD5 only works with partial data downloading"
  \<^item> \<open>NoContentLength\<close>: "File download response doesn't contain valid content length header"
  \<^item> \<open>OffsetOrContentLength\<close>: "offset must >= 0 and contentLength must be > 0" (uploadRange)
  \<^item> \<open>ContentLengthTooLarge\<close>: "offset must be < FILE_RANGE_MAX_SIZE_BYTES bytes" (uploadRange)
  \<^item> \<open>RangeSizeOutOfRange\<close>: "options.rangeSize must be > 0 and <= FILE_RANGE_MAX_SIZE_BYTES"
  \<^item> \<open>ParallelismNegative\<close>: "options.parallelism cannot less than 0."
  \<^item> \<open>RangeSizeNotPositive\<close>: "rangeSize option must be > 0" (downloadToBuffer)
  \<^item> \<open>OffsetNegative\<close>: "offset option must be >= 0" (downloadToBuffer)
  \<^item> \<open>CountNotPositive\<close>: "count option must be > 0" (downloadToBuffer)
  \<^item> \<open>OffsetBeyondFile\<close>: "offset ... shouldn't be larger than file size ..."
  \<^item> \<open>BufferTooSmall\<close>: "The buffer's size should be equal to or larger than the request
    count of bytes: ..."
  \<^item> \<open>BufferSizeOutOfRange\<close>: "bufferSize must be > 0 and <= FILE_RANGE_MAX_SIZE_BYTES"
  \<^item> \<open>MaxBuffersNotPositive\<close>: "maxBuffers must be > 0."
  \<^item> \<open>StreamLargerThanFile\<close>: "Stream size is larger than file size ... bytes, uploading
    failed. ..."
  \<open>RestError\<close> is any rejection of a request by the transport or the service.
\<close>

datatype range_error =
    FileSizeOutOfRange
  | MD5NeedsPartialDownload
  | NoContentLength
  | OffsetOrContentLength
  | ContentLengthTooLarge
  | RangeSizeOutOfRange
  | ParallelismNegative
  | RangeSizeNotPositive
  | OffsetNegative
  | CountNotPositive
  | OffsetBeyondFile
  | BufferTooSmall
  | BufferSizeOutOfRange
  | MaxBuffersNotPositive
  | StreamLargerThanFile

datatype error = RangeError range_error | RestError

text \<open>A byte range \<^verbatim>\<open>{ offset, count }\<close> as handed to \<^verbatim>\<open>rangeToString\<close>.\<close>

record range =
  range_offset :: int
  range_count :: "int option"

text \<open>
  The requests sent through \<^verbatim>\<open>this.context\<close>: every network call of the file is one of
  these. \<open>DownloadReq None\<close> is a download without a range header (the whole file).
\<close>

datatype request =
    CreateReq int
  | UploadRangeReq range int
  | DownloadReq "range option"
  | GetPropertiesReq

text \<open>
  The generated operations object \<^verbatim>\<open>this.context\<close> and the runtime flag \<^verbatim>\<open>isNode\<close> are
  outside the file; they are a parameter of the model, giving the outcome of each
  request: whether a create or a range upload is accepted, the \<^verbatim>\<open>contentLength\<close> of the
  properties, and the (possibly missing) \<^verbatim>\<open>contentLength\<close> header of a download response
  (\<open>None\<close> where the request is rejected). A rejected request is a \<open>RestError\<close>.
\<close>

record file_context =
  isNode :: bool
  ctx_create :: "int \<Rightarrow> bool"
  ctx_uploadRange :: "range \<Rightarrow> int \<Rightarrow> bool"
  ctx_getProperties :: "int option"
  ctx_download :: "range option \<Rightarrow> int option option"

text \<open>
  An asynchronous method yields its outcome (the rejection or the value) together with
  the requests it has issued, in order.
\<close>

type_synonym 'a io = "(error + 'a) \<times> request list"

definition accepted :: "bool \<Rightarrow> error + unit" where
  "accepted ok = (if ok then Inr () else Inl RestError)"

definition response :: "'a option \<Rightarrow> error + 'a" where
  "response r = (case r of None \<Rightarrow> Inl RestError | Some v \<Rightarrow> Inr v)"

text \<open>
  \<^verbatim>\<open>if (!options.x) { options.x = d; }\<close> on an optional number: \<^verbatim>\<open>undefined\<close> and \<open>0\<close> are
  the falsy values.
\<close>

definition falsy :: "int option \<Rightarrow> bool" where
  "falsy x = (case x of None \<Rightarrow> True | Some v \<Rightarrow> v = 0)"

definition or_default :: "int option \<Rightarrow> int \<Rightarrow> int" where
  "or_default x d = (case x of None \<Rightarrow> d | Some v \<Rightarrow> if v = 0 then d else v)"

record transfer_options =
  rangeSize :: "int option"
  parallelism :: "int option"
  progress :: bool

record download_options = transfer_options +
  maxRetryRequestsPerRange :: "int option"

text \<open>
  A service that accepts every request, holding a file of the given length; used for
  the concrete runs below.
\<close>

definition accepting :: "int \<Rightarrow> file_context" where
  "accepting fileLength =
     \<lparr>isNode = True,
      ctx_create = (\<lambda>_. True),
      ctx_uploadRange = (\<lambda>_ _. True),
      ctx_getProperties = Some fileLength,
      ctx_download = (\<lambda>r. case r of
                              None \<Rightarrow> Some (Some fileLength)
                            | Some rg \<Rightarrow>
                                (let rest = fileLength - range_offset rg
                                 in case range_count rg of
                                      None \<Rightarrow> Some (Some rest)
                                    | Some c \<Rightarrow> Some (Some (min c rest))))\<rparr>"

section \<open>Single requests: create, uploadRange\<close>

definition create :: "file_context \<Rightarrow> int \<Rightarrow> unit io" where
  "create ctx fsize =
     (if fsize < 0 \<or> fsize > FILE_MAX_SIZE_BYTES
      then (Inl (RangeError FileSizeOutOfRange), [])
      else (accepted (ctx_create ctx fsize), [CreateReq fsize]))"

definition uploadRange :: "file_context \<Rightarrow> int \<Rightarrow> int \<Rightarrow> unit io" where
  "uploadRange ctx off contentLength =
     (if off < 0 \<or> contentLength \<le> 0
      then (Inl (RangeError OffsetOrContentLength), [])
      else if contentLength > FILE_RANGE_MAX_SIZE_BYTES
      then (Inl (RangeError ContentLengthTooLarge), [])
      else (let r = \<lparr>range_offset = off, range_count = Some contentLength\<rparr>
            in (accepted (ctx_uploadRange ctx r contentLength),
                [UploadRangeReq r contentLength])))"

section \<open>Chunked upload: uploadResetableStream, UploadSeekableBlob\<close>

text \<open>
  One operation added to the batch: the closure computes \<^verbatim>\<open>start\<close> and
  \<^verbatim>\<open>contentLength\<close> from its index \<^verbatim>\<open>i\<close> and uploads that range.
\<close>

record chunk =
  chunk_start :: int
  chunk_length :: int

text \<open>
  The loop of lines 1064-1090 (and 966-988): \<^verbatim>\<open>numBlocks\<close> is
  \<^verbatim>\<open>Math.floor((size - 1) / rangeSize) + 1\<close> (\<open>div\<close> on \<open>int\<close> rounds towards minus
  infinity, as \<^verbatim>\<open>Math.floor\<close> does), and for \<^verbatim>\<open>i = 0, ..., numBlocks - 1\<close> an operation is
  added with \<^verbatim>\<open>start = rangeSize * i\<close>,
  \<^verbatim>\<open>end = i === numBlocks - 1 ? size : start + rangeSize\<close> and
  \<^verbatim>\<open>contentLength = end - start\<close>.
\<close>

definition uploadResetableStream_operations :: "int \<Rightarrow> int \<Rightarrow> chunk list" where
  "uploadResetableStream_operations fsize rs =
     (let numBlocks = (fsize - 1) div rs + 1
      in map (\<lambda>i. let start = rs * i;
                       fin = (if i = numBlocks - 1 then fsize else start + rs);
                       contentLength = fin - start
                   in \<lparr>chunk_start = start, chunk_length = contentLength\<rparr>)
             [0..numBlocks - 1])"

definition UploadSeekableBlob_operations :: "int \<Rightarrow> int \<Rightarrow> chunk list" where
  "UploadSeekableBlob_operations fsize rs =
     (let numBlocks = (fsize - 1) div rs + 1
      in map (\<lambda>i. let start = rs * i;
                       fin = (if i = numBlocks - 1 then fsize else start + rs);
                       contentLength = fin - start
                   in \<lparr>chunk_start = start, chunk_length = contentLength\<rparr>)
             [0..numBlocks - 1])"

text \<open>
  The orchestrators up to \<^verbatim>\<open>batch.do()\<close>: option defaults and validation, the create
  request, then the operations handed to the batch.
\<close>

definition uploadResetableStream :: "file_context \<Rightarrow> int \<Rightarrow> transfer_options \<Rightarrow> chunk list io" where
  "uploadResetableStream ctx fsize options =
     (let rs = or_default (rangeSize options) FILE_RANGE_MAX_SIZE_BYTES in
      if rs < 0 \<or> rs > FILE_RANGE_MAX_SIZE_BYTES
      then (Inl (RangeError RangeSizeOutOfRange), [])
      else let par = or_default (parallelism options) DEFAULT_HIGH_LEVEL_PARALLELISM in
      if par < 0 then (Inl (RangeError ParallelismNegative), [])
      else case create ctx fsize of
             (Inl e, t) \<Rightarrow> (Inl e, t)
           | (Inr _, t) \<Rightarrow> (Inr (uploadResetableStream_operations fsize rs), t))"

definition UploadSeekableBlob :: "file_context \<Rightarrow> int \<Rightarrow> transfer_options \<Rightarrow> chunk list io" where
  "UploadSeekableBlob ctx fsize options =
     (let rs = or_default (rangeSize options) FILE_RANGE_MAX_SIZE_BYTES in
      if rs < 0 \<or> rs > FILE_RANGE_MAX_SIZE_BYTES
      then (Inl (RangeError RangeSizeOutOfRange), [])
      else let par = or_default (parallelism options) DEFAULT_HIGH_LEVEL_PARALLELISM in
      if par < 0 then (Inl (RangeError ParallelismNegative), [])
      else case create ctx fsize of
             (Inl e, t) \<Rightarrow> (Inl e, t)
           | (Inr _, t) \<Rightarrow> (Inr (UploadSeekableBlob_operations fsize rs), t))"

text \<open>
  The body of one operation after its \<^verbatim>\<open>await this.uploadRange(...)\<close>: the shared counter
  \<^verbatim>\<open>transferProgress\<close> grows by \<^verbatim>\<open>contentLength\<close> and, when the caller gave a
  \<^verbatim>\<open>progress\<close> callback, the callback is invoked with the new total. The state keeps the
  counter and the \<^verbatim>\<open>loadedBytes\<close> of every invocation so far, oldest first.
\<close>

record transfer_state =
  transferProgress :: int
  loadedBytes :: "int list"

definition add_progress :: "bool \<Rightarrow> int \<Rightarrow> transfer_state \<Rightarrow> transfer_state" where
  "add_progress has_progress n st =
     (let tp = transferProgress st + n
      in \<lparr>transferProgress = tp,
          loadedBytes = (if has_progress then loadedBytes st @ [tp] else loadedBytes st)\<rparr>)"

definition upload_operation ::
    "file_context \<Rightarrow> transfer_options \<Rightarrow> chunk \<Rightarrow> transfer_state \<Rightarrow> transfer_state io" where
  "upload_operation ctx options c st =
     (case uploadRange ctx (chunk_start c) (chunk_length c) of
        (Inl e, t) \<Rightarrow> (Inl e, t)
      | (Inr _, t) \<Rightarrow> (Inr (add_progress (progress options) (chunk_length c) st), t))"

text \<open>
  Modelled from the spec: \<^verbatim>\<open>utils/Batch.ts\<close> is not among the sources. By sections 4.1 and 5
  of the specification the operations of a batch settle in any order, the first error is
  the one recorded, operations already started are allowed to finish, and the runtime is
  single-threaded, so the statements after an \<^verbatim>\<open>await\<close> run without interleaving. A run
  of the batch is therefore given by the list of the started operations in the order in
  which they settle; the result is the first error, if any, and the final counter state.
\<close>

fun batch_do ::
    "file_context \<Rightarrow> transfer_options \<Rightarrow> chunk list \<Rightarrow> error option \<times> transfer_state
       \<Rightarrow> error option \<times> transfer_state" where
  "batch_do ctx options [] r = r"
| "batch_do ctx options (c # cs) (err, st) =
     (case fst (upload_operation ctx options c st) of
        Inl e \<Rightarrow> batch_do ctx options cs (case err of None \<Rightarrow> Some e | Some e0 \<Rightarrow> Some e0, st)
      | Inr st' \<Rightarrow> batch_do ctx options cs (err, st'))"

definition initial_state :: transfer_state where
  "initial_state = \<lparr>transferProgress = 0, loadedBytes = []\<rparr>"

text \<open>
  The range upload of a chunk goes through: \<^verbatim>\<open>uploadRange\<close> accepts its arguments and the
  service accepts the request. Whether it does depends on the chunk alone, not on the
  counter.
\<close>

definition uploads :: "file_context \<Rightarrow> chunk \<Rightarrow> bool" where
  "uploads ctx c \<longleftrightarrow> fst (uploadRange ctx (chunk_start c) (chunk_length c)) = Inr ()"

text \<open>
  The invariant of the counter state used below: the reported totals are strictly
  increasing, positive, and none exceeds the counter.
\<close>

definition progress_invariant :: "transfer_state \<Rightarrow> bool" where
  "progress_invariant st \<longleftrightarrow>
     sorted_wrt (<) (loadedBytes st) \<and> 0 \<le> transferProgress st
     \<and> (\<forall>v \<in> set (loadedBytes st). 0 < v \<and> v \<le> transferProgress st)"

section \<open>download and its reopen factory\<close>

text \<open>
  The second argument of \<^verbatim>\<open>new FileDownloadResponse\<close> (lines 612-631): called with the
  position \<^verbatim>\<open>start\<close>, it sends one download request with the range
  \<^verbatim>\<open>{ count: offset + res.contentLength - start, offset: start }\<close>. \<^verbatim>\<open>rangeToString\<close>
  (Range.ts, outside the file) renders the range as a header; the model keeps the range.
\<close>

definition download_getter :: "file_context \<Rightarrow> int \<Rightarrow> int \<Rightarrow> int \<Rightarrow> int option io" where
  "download_getter ctx offset contentLength start =
     (let updatedRange = \<lparr>range_offset = start,
                           range_count = Some (offset + contentLength - start)\<rparr>
      in (response (ctx_download ctx (Some updatedRange)),
          [DownloadReq (Some updatedRange)]))"

record file_download_options =
  maxRetryRequests :: "int option"
  rangeGetContentMD5 :: bool

text \<open>
  What \<^verbatim>\<open>download\<close> resolves with: in a browser the raw response (its
  \<^verbatim>\<open>contentLength\<close> is all the model keeps), in Node.js a \<^verbatim>\<open>FileDownloadResponse\<close> built
  from the reopen factory, the offset, the content length and the retry budget.
\<close>

record FileDownloadResponse =
  getter :: "int \<Rightarrow> int option io"
  fdr_offset :: int
  fdr_count :: int
  fdr_maxRetryRequests :: int

datatype download_result = BrowserResponse "int option" | NodeResponse FileDownloadResponse

definition download ::
    "file_context \<Rightarrow> int \<Rightarrow> int option \<Rightarrow> file_download_options \<Rightarrow> download_result io" where
  "download ctx offset cnt options =
     (if rangeGetContentMD5 options \<and> offset = 0 \<and> cnt = None
      then (Inl (RangeError MD5NeedsPartialDownload), [])
      else
        let downloadFullFile = (offset = 0 \<and> falsy cnt);
            rng = (if downloadFullFile then None
                   else Some \<lparr>range_offset = offset, range_count = cnt\<rparr>)
        in case ctx_download ctx rng of
             None \<Rightarrow> (Inl RestError, [DownloadReq rng])
           | Some contentLength \<Rightarrow>
               if \<not> isNode ctx then (Inr (BrowserResponse contentLength), [DownloadReq rng])
               else
                 let retries = (case maxRetryRequests options of
                                  None \<Rightarrow> DEFAULT_MAX_DOWNLOAD_RETRY_REQUESTS
                                | Some m \<Rightarrow> if m < 0 then DEFAULT_MAX_DOWNLOAD_RETRY_REQUESTS
                                            else m)
                 in (case contentLength of
                       None \<Rightarrow> (Inl (RangeError NoContentLength), [DownloadReq rng])
                     | Some len \<Rightarrow>
                         (Inr (NodeResponse
                                \<lparr>getter = download_getter ctx offset len,
                                 fdr_offset = offset,
                                 fdr_count = len,
                                 fdr_maxRetryRequests = retries\<rparr>),
                          [DownloadReq rng])))"

section \<open>downloadToBuffer\<close>

text \<open>
  One operation of the download batch (lines 1154-1169), for the loop variable \<^verbatim>\<open>off\<close>:
  with \<^verbatim>\<open>chunkEnd = off + rangeSize < count ? off + rangeSize : count\<close> it calls
  \<^verbatim>\<open>this.download(off, chunkEnd - off + 1)\<close>, copies the stream into the buffer with
  \<^verbatim>\<open>streamToBuffer(stream, buffer, off - offset, chunkEnd - offset)\<close> and adds
  \<^verbatim>\<open>chunkEnd - off\<close> to the progress counter.
\<close>

record download_chunk =
  download_offset :: int
  download_count :: int
  buffer_offset :: int
  buffer_end :: int
  loaded :: int

definition downloadToBuffer_operation :: "int \<Rightarrow> int \<Rightarrow> int \<Rightarrow> int \<Rightarrow> download_chunk" where
  "downloadToBuffer_operation offset cnt rs off =
     (let chunkEnd = (if off + rs < cnt then off + rs else cnt)
      in \<lparr>download_offset = off,
          download_count = chunkEnd - off + 1,
          buffer_offset = off - offset,
          buffer_end = chunkEnd - offset,
          loaded = chunkEnd - off\<rparr>)"

text \<open>
  \<^verbatim>\<open>for (let off = offset; off < offset + count; off = off + options.rangeSize)\<close>.
  When the loop is reached \<^verbatim>\<open>rangeSize\<close> is positive (a falsy value has been replaced by
  the default and a negative one rejected), which is what makes the loop end; the guard
  \<open>0 < rs\<close> records it.
\<close>

function downloadToBuffer_loop :: "int \<Rightarrow> int \<Rightarrow> int \<Rightarrow> int \<Rightarrow> download_chunk list" where
  "downloadToBuffer_loop offset cnt rs off =
     (if off < offset + cnt \<and> 0 < rs
      then downloadToBuffer_operation offset cnt rs off
             # downloadToBuffer_loop offset cnt rs (off + rs)
      else [])"
  by pat_completeness auto
termination
  by (relation "measure (\<lambda>(offset, cnt, rs, off). nat (offset + cnt - off))") auto

declare downloadToBuffer_loop.simps [simp del]

text \<open>
  \<^verbatim>\<open>downloadToBuffer\<close> up to \<^verbatim>\<open>batch.do()\<close>: defaults and validation, the
  \<^verbatim>\<open>getProperties\<close> request when \<^verbatim>\<open>count\<close> is falsy, the check of the buffer, then the
  operations handed to the batch. The buffer is given by its length.
\<close>

definition downloadToBuffer ::
    "file_context \<Rightarrow> nat \<Rightarrow> int \<Rightarrow> int option \<Rightarrow> download_options \<Rightarrow> download_chunk list io" where
  "downloadToBuffer ctx buffer_length offset cnt options =
     (let rs = or_default (rangeSize options) FILE_RANGE_MAX_SIZE_BYTES in
      if rs < 0 then (Inl (RangeError RangeSizeNotPositive), [])
      else if offset < 0 then (Inl (RangeError OffsetNegative), [])
      else if (case cnt of None \<Rightarrow> False | Some c \<Rightarrow> c \<noteq> 0 \<and> c \<le> 0)
      then (Inl (RangeError CountNotPositive), [])
      else let par = or_default (parallelism options) DEFAULT_HIGH_LEVEL_PARALLELISM in
      if par < 0 then (Inl (RangeError ParallelismNegative), [])
      else
        case (if falsy cnt
              then (case ctx_getProperties ctx of
                      None \<Rightarrow> (Inl RestError, [GetPropertiesReq])
                    | Some contentLength \<Rightarrow>
                        if contentLength - offset < 0
                        then (Inl (RangeError OffsetBeyondFile), [GetPropertiesReq])
                        else (Inr (contentLength - offset), [GetPropertiesReq]))
              else (Inr (or_default cnt 0), [])) of
          (Inl e, t) \<Rightarrow> (Inl e, t)
        | (Inr c, t) \<Rightarrow>
            if int buffer_length < c then (Inl (RangeError BufferTooSmall), t)
            else (Inr (downloadToBuffer_loop offset c rs offset), t))"

section \<open>uploadStream\<close>

text \<open>
  The arguments \<^verbatim>\<open>uploadStream\<close> constructs its \<^verbatim>\<open>BufferScheduler\<close> with (the stream and
  the handler apart; the handler is modelled below).
\<close>

record BufferScheduler =
  bufferSize :: int
  maxBuffers :: int
  sched_parallelism :: int

text \<open>
  \<^verbatim>\<open>Math.ceil((maxBuffers / 4) * 3)\<close>, computed over the rationals: for an integer
  \<^verbatim>\<open>maxBuffers\<close> the quotient by 4 and its triple are exact in floating point.
\<close>

definition outgoing_parallelism :: "int \<Rightarrow> int" where
  "outgoing_parallelism mb = \<lceil>((of_int mb :: rat) / 4) * 3\<rceil>"

definition uploadStream :: "file_context \<Rightarrow> int \<Rightarrow> int \<Rightarrow> int \<Rightarrow> BufferScheduler io" where
  "uploadStream ctx fsize bsize mb =
     (if bsize \<le> 0 \<or> bsize > FILE_RANGE_MAX_SIZE_BYTES
      then (Inl (RangeError BufferSizeOutOfRange), [])
      else if mb < 0 then (Inl (RangeError MaxBuffersNotPositive), [])
      else case create ctx fsize of
             (Inl e, t) \<Rightarrow> (Inl e, t)
           | (Inr _, t) \<Rightarrow>
               (Inr \<lparr>bufferSize = bsize, maxBuffers = mb,
                     sched_parallelism = outgoing_parallelism mb\<rparr>, t))"

text \<open>
  The outgoing handler (lines 1228-1243), called by the scheduler with a filled buffer
  (given by its length) and that buffer's offset. Up to its \<^verbatim>\<open>await\<close> it compares the
  counter with the declared size and sends the range upload; once the upload has
  succeeded it adds the buffer's length to the counter and reports progress. Other
  handlers may settle in between, hence the two steps.
\<close>

definition outgoingHandler_call :: "file_context \<Rightarrow> int \<Rightarrow> transfer_state \<Rightarrow> nat \<Rightarrow> int \<Rightarrow> unit io" where
  "outgoingHandler_call ctx fsize st buffer_length offset =
     (if transferProgress st + int buffer_length > fsize
      then (Inl (RangeError StreamLargerThanFile), [])
      else uploadRange ctx offset (int buffer_length))"

definition outgoingHandler_settle :: "transfer_options \<Rightarrow> nat \<Rightarrow> transfer_state \<Rightarrow> transfer_state" where
  "outgoingHandler_settle options buffer_length st =
     add_progress (progress options) (int buffer_length) st"

section \<open>Validation before any request\<close>

text \<open>
  C8. Parameter violations are detected before any network call: \<^verbatim>\<open>create(size)\<close> throws a
  RangeError when \<open>size < 0\<close> or \<open>size > FILE_MAX_SIZE_BYTES\<close>, and
  \<^verbatim>\<open>uploadRange(body, offset, contentLength)\<close> throws a RangeError when \<open>offset < 0\<close>,
  \<open>contentLength \<le> 0\<close> or \<open>contentLength > FILE_RANGE_MAX_SIZE_BYTES\<close>; in each case no
  request has been issued.
\<close>

theorem create_uploadRange_validation:
  "(fsize < 0 \<or> fsize > FILE_MAX_SIZE_BYTES \<longrightarrow>
      create ctx fsize = (Inl (RangeError FileSizeOutOfRange), []))
   \<and> (off < 0 \<or> contentLength \<le> 0 \<or> contentLength > FILE_RANGE_MAX_SIZE_BYTES \<longrightarrow>
      (\<exists>e. uploadRange ctx off contentLength = (Inl (RangeError e), [])))"
  by (auto simp: create_def uploadRange_def)

theorem create_uploadRange_validation_witness:
  "create (accepting 0) (- 1) = (Inl (RangeError FileSizeOutOfRange), [])
   \<and> (\<exists>e. uploadRange (accepting 0) 0 (FILE_RANGE_MAX_SIZE_BYTES + 1)
              = (Inl (RangeError e), []))"
  using create_uploadRange_validation [of "- 1" "accepting 0" 0 "FILE_RANGE_MAX_SIZE_BYTES + 1"]
  by simp

section \<open>The chunk plan of the upload orchestrators\<close>

lemma numBlocks_bounds:
  assumes "(0::int) < C"
  shows "((S - 1) div C) * C < S" and "S \<le> ((S - 1) div C + 1) * C"
proof -
  have eq: "(S - 1) div C * C + (S - 1) mod C = S - 1"
    by (rule div_mult_mod_eq)
  have r: "0 \<le> (S - 1) mod C" "(S - 1) mod C < C"
    using assms by simp_all
  have expand: "((S - 1) div C + 1) * C = (S - 1) div C * C + C"
    by (simp add: algebra_simps)
  show "((S - 1) div C) * C < S"
    using eq r by linarith
  show "S \<le> ((S - 1) div C + 1) * C"
    using eq r expand by linarith
qed

lemma ceiling_quotient:
  assumes "(0::int) < C" "q * C < S" "S \<le> (q + 1) * C"
  shows "\<lceil>(of_int S :: rat) / of_int C\<rceil> = q + 1"
proof (rule ceiling_unique)
  have C: "(0::rat) < of_int C"
    using assms(1) by simp
  have "(of_int (q * C) :: rat) < of_int S"
    using assms(2) by (simp only: of_int_less_iff)
  then show "of_int (q + 1) - 1 < (of_int S :: rat) / of_int C"
    using C by (simp add: pos_less_divide_eq)
  have "(of_int S :: rat) \<le> of_int ((q + 1) * C)"
    using assms(3) by (simp only: of_int_le_iff)
  then show "(of_int S :: rat) / of_int C \<le> of_int (q + 1)"
    using C by (simp add: pos_divide_le_eq)
qed

lemma numBlocks_ceiling:
  assumes "(0::int) < C"
  shows "(S - 1) div C + 1 = \<lceil>(of_int S :: rat) / of_int C\<rceil>"
  using ceiling_quotient [OF assms numBlocks_bounds [OF assms]] by simp

lemma numBlocks_nonneg:
  assumes "(0::int) < C" "0 \<le> S"
  shows "0 \<le> (S - 1) div C + 1"
proof -
  have "0 \<le> ((S - 1) div C + 1) * C"
    using numBlocks_bounds(2) [OF assms(1), of S] assms(2) by linarith
  then show ?thesis
    using assms(1) by (simp add: zero_le_mult_iff)
qed

lemma UploadSeekableBlob_operations_eq:
  "UploadSeekableBlob_operations S C = uploadResetableStream_operations S C"
  by (simp add: UploadSeekableBlob_operations_def uploadResetableStream_operations_def)

lemma length_operations:
  "length (uploadResetableStream_operations S C) = nat ((S - 1) div C + 1)"
  by (simp add: uploadResetableStream_operations_def Let_def)

lemma nth_operations:
  assumes "k < nat ((S - 1) div C + 1)"
  shows "uploadResetableStream_operations S C ! k =
           \<lparr>chunk_start = C * int k,
            chunk_length = (if int k = (S - 1) div C then S - C * int k else C)\<rparr>"
  using assms by (simp add: uploadResetableStream_operations_def Let_def)


lemma chunk_length_operations:
  assumes "k < nat ((S - 1) div C + 1)"
  shows "chunk_length (uploadResetableStream_operations S C ! k) =
           (if int k = (S - 1) div C then S - C * int k else C)"
    and "chunk_start (uploadResetableStream_operations S C ! k) = C * int k"
  using nth_operations [OF assms] by simp_all

lemma sum_take_operations:
  "k < nat ((S - 1) div C + 1) \<Longrightarrow>
     sum_list (map chunk_length (take k (uploadResetableStream_operations S C))) = C * int k"
proof (induction k)
  case 0
  show ?case by simp
next
  case (Suc k)
  then have k: "k < nat ((S - 1) div C + 1)" and notlast: "int k \<noteq> (S - 1) div C"
    by linarith+
  have "take (Suc k) (uploadResetableStream_operations S C) =
          take k (uploadResetableStream_operations S C) @ [uploadResetableStream_operations S C ! k]"
    using k by (simp add: take_Suc_conv_app_nth length_operations)
  then show ?case
    using Suc.IH [OF k] chunk_length_operations(1) [OF k] notlast
    by (simp add: algebra_simps)
qed

lemma last_length_bounds:
  assumes "(0::int) < C"
  shows "0 < S - C * ((S - 1) div C)" and "S - C * ((S - 1) div C) \<le> C"
proof -
  show "0 < S - C * ((S - 1) div C)"
    using numBlocks_bounds(1) [OF assms, of S] by (simp add: mult.commute)
  show "S - C * ((S - 1) div C) \<le> C"
    using numBlocks_bounds(2) [OF assms, of S] by (simp add: algebra_simps)
qed

lemma sum_operations:
  assumes "(0::int) < C" "0 \<le> S"
  shows "sum_list (map chunk_length (uploadResetableStream_operations S C)) = S"
proof (cases "(S - 1) div C + 1 = 0")
  case True
  then have "S \<le> 0"
    using numBlocks_bounds(2) [OF assms(1), of S] by simp
  moreover have "uploadResetableStream_operations S C = []"
    using True length_operations [of S C] by simp
  ultimately show ?thesis
    using assms(2) by simp
next
  case False
  define m where "m = nat ((S - 1) div C)"
  have n: "nat ((S - 1) div C + 1) = Suc m" and m: "int m = (S - 1) div C"
    using False numBlocks_nonneg [OF assms] by (simp_all add: m_def nat_add_distrib)
  have lt: "m < nat ((S - 1) div C + 1)"
    using n by simp
  have "uploadResetableStream_operations S C =
          take m (uploadResetableStream_operations S C) @ [uploadResetableStream_operations S C ! m]"
    using take_Suc_conv_app_nth [of m "uploadResetableStream_operations S C"] n
    by (simp add: length_operations)
  then have "sum_list (map chunk_length (uploadResetableStream_operations S C)) =
          sum_list (map chunk_length (take m (uploadResetableStream_operations S C)))
            + chunk_length (uploadResetableStream_operations S C ! m)"
    by (metis (no_types, lifting) add.right_neutral list.simps(8,9) map_append sum_list.Cons sum_list.Nil sum_list_append)
  then show ?thesis
    using sum_take_operations [OF lt] chunk_length_operations(1) [OF lt] m by simp
qed

lemma operations_length_range:
  assumes "(0::int) < C" "c \<in> set (uploadResetableStream_operations S C)"
  shows "0 < chunk_length c \<and> chunk_length c \<le> C"
proof -
  from assms(2) obtain k where k: "k < nat ((S - 1) div C + 1)"
      and c: "c = uploadResetableStream_operations S C ! k"
    by (auto simp: in_set_conv_nth length_operations)
  show ?thesis
  proof (cases "int k = (S - 1) div C")
    case True
    then show ?thesis
      using c chunk_length_operations(1) [OF k] last_length_bounds [OF assms(1), of S] by simp
  next
    case False
    then show ?thesis
      using c chunk_length_operations(1) [OF k] assms(1) by simp
  qed
qed

lemma operations_contiguous:
  assumes "k < length (uploadResetableStream_operations S C)"
  shows "chunk_start (uploadResetableStream_operations S C ! k) =
           sum_list (map chunk_length (take k (uploadResetableStream_operations S C)))"
  using assms chunk_length_operations(2) [of k S C] sum_take_operations [of k S C]
  by (simp add: length_operations)

lemma operations_last:
  assumes "uploadResetableStream_operations S C \<noteq> []"
  shows "chunk_length (last (uploadResetableStream_operations S C)) =
           S - (int (length (uploadResetableStream_operations S C)) - 1) * C"
proof -
  define m where "m = length (uploadResetableStream_operations S C) - 1"
  have len: "length (uploadResetableStream_operations S C) = Suc m"
    using assms by (simp add: m_def)
  then have n: "nat ((S - 1) div C + 1) = Suc m"
    by (simp add: length_operations)
  then have m: "int m = (S - 1) div C" and lt: "m < nat ((S - 1) div C + 1)"
    by linarith+
  have "last (uploadResetableStream_operations S C) = uploadResetableStream_operations S C ! m"
    using assms by (simp add: last_conv_nth m_def)
  then show ?thesis
    using chunk_length_operations(1) [OF lt] m len by (simp add: algebra_simps)
qed

lemma operations_ordered:
  assumes "(0::int) < C" "i < j" "j < length (uploadResetableStream_operations S C)"
  shows "chunk_start (uploadResetableStream_operations S C ! i)
           + chunk_length (uploadResetableStream_operations S C ! i)
         \<le> chunk_start (uploadResetableStream_operations S C ! j)"
proof -
  have j: "j < nat ((S - 1) div C + 1)" and i: "i < nat ((S - 1) div C + 1)"
    using assms(2,3) by (simp_all add: length_operations)
  have notlast: "int i \<noteq> (S - 1) div C"
    using assms(2) j by linarith
  have "C * int i + C = C * (int i + 1)"
    by (simp add: algebra_simps)
  also have "\<dots> \<le> C * int j"
    using assms(1,2) by (intro mult_left_mono) simp_all
  finally show ?thesis
    using chunk_length_operations [OF i] chunk_length_operations(2) [OF j] notlast by simp
qed

lemma operations_cover:
  assumes "(0::int) < C" "0 \<le> S"
  shows "(\<Union>c \<in> set (uploadResetableStream_operations S C).
            {chunk_start c ..< chunk_start c + chunk_length c}) = {0 ..< S}"
proof (intro set_eqI iffI)
  fix x
  assume "x \<in> (\<Union>c \<in> set (uploadResetableStream_operations S C).
            {chunk_start c ..< chunk_start c + chunk_length c})"
  then obtain k where k: "k < nat ((S - 1) div C + 1)"
      and x: "C * int k \<le> x"
         "x < C * int k + (if int k = (S - 1) div C then S - C * int k else C)"
    using chunk_length_operations
    by (auto simp: in_set_conv_nth length_operations)
  have "0 \<le> C * int k"
    using assms(1) by simp
  moreover have "C * int k + (if int k = (S - 1) div C then S - C * int k else C) \<le> S"
  proof (cases "int k = (S - 1) div C")
    case True
    then show ?thesis by simp
  next
    case False
    then have "int k + 1 \<le> (S - 1) div C"
      using k by linarith
    then have "C * (int k + 1) \<le> C * ((S - 1) div C)"
      using assms(1) by (intro mult_left_mono) simp_all
    then show ?thesis
      using False last_length_bounds(1) [OF assms(1), of S] by (simp add: algebra_simps)
  qed
  ultimately show "x \<in> {0 ..< S}"
    using x by simp
next
  fix x
  assume "x \<in> {0 ..< S}"
  then have x: "0 \<le> x" "x < S"
    by simp_all
  define k where "k = nat (x div C)"
  have xdiv: "0 \<le> x div C"
    using x(1) assms(1) by (simp add: pos_imp_zdiv_nonneg_iff)
  have kint: "int k = x div C"
    using xdiv by (simp add: k_def)
  have "x div C \<le> (S - 1) div C"
    using x(2) assms(1) by (intro zdiv_mono1) simp_all
  then have k: "k < nat ((S - 1) div C + 1)"
    using kint by linarith
  have lo: "C * int k \<le> x"
    using kint assms(1) by (metis mult.commute div_mult_mod_eq add_increasing2 pos_mod_sign order_refl)
  have hi: "x < C * int k + (if int k = (S - 1) div C then S - C * int k else C)"
  proof (cases "int k = (S - 1) div C")
    case True
    then show ?thesis using x(2) by simp
  next
    case False
    have "C * (x div C) + x mod C = x"
      by (rule mult_div_mod_eq)
    moreover have "x mod C < C"
      using assms(1) by simp
    ultimately have "x < C * (x div C) + C"
      by linarith
    then show ?thesis
      using False kint by simp
  qed
  have "uploadResetableStream_operations S C ! k \<in> set (uploadResetableStream_operations S C)"
    using k by (simp add: length_operations)
  moreover have "x \<in> {chunk_start (uploadResetableStream_operations S C ! k) ..<
      chunk_start (uploadResetableStream_operations S C ! k)
        + chunk_length (uploadResetableStream_operations S C ! k)}"
    using lo hi chunk_length_operations [OF k] by simp
  ultimately show "x \<in> (\<Union>c \<in> set (uploadResetableStream_operations S C).
            {chunk_start c ..< chunk_start c + chunk_length c})"
    by blast
qed

lemma uploadResetableStream_enqueues:
  assumes "rangeSize options = Some C" "0 < C" "C \<le> FILE_RANGE_MAX_SIZE_BYTES"
    and "0 \<le> or_default (parallelism options) DEFAULT_HIGH_LEVEL_PARALLELISM"
    and "0 \<le> S" "S \<le> FILE_MAX_SIZE_BYTES" "ctx_create ctx S"
  shows "uploadResetableStream ctx S options =
           (Inr (uploadResetableStream_operations S C), [CreateReq S])"
    and "UploadSeekableBlob ctx S options =
           (Inr (UploadSeekableBlob_operations S C), [CreateReq S])"
  using assms
  by (simp_all add: uploadResetableStream_def UploadSeekableBlob_def or_default_def
        create_def accepted_def)

lemma operations_partition:
  assumes "0 \<le> S" and "0 < C" and "C \<le> FILE_RANGE_MAX_SIZE_BYTES"
    and "ops \<in> {uploadResetableStream_operations S C, UploadSeekableBlob_operations S C}"
  shows "int (length ops) = \<lceil>(of_int S :: rat) / of_int C\<rceil>
    \<and> (\<forall>k < length ops. chunk_start (ops ! k) = sum_list (map chunk_length (take k ops)))
    \<and> (\<forall>i j. i < j \<and> j < length ops \<longrightarrow>
          chunk_start (ops ! i) + chunk_length (ops ! i) \<le> chunk_start (ops ! j))
    \<and> (\<Union>c \<in> set ops. {chunk_start c ..< chunk_start c + chunk_length c}) = {0 ..< S}
    \<and> (\<forall>c \<in> set ops. 0 < chunk_length c \<and> chunk_length c \<le> C)
    \<and> sum_list (map chunk_length ops) = S
    \<and> (ops \<noteq> [] \<longrightarrow> chunk_length (last ops) = S - (int (length ops) - 1) * C)"
proof -
  have ops: "ops = uploadResetableStream_operations S C"
    using assms(4) by (auto simp: UploadSeekableBlob_operations_eq)
  have "int (length ops) = \<lceil>(of_int S :: rat) / of_int C\<rceil>"
    using numBlocks_nonneg [OF assms(2,1)] numBlocks_ceiling [OF assms(2), of S]
    by (simp add: ops length_operations)
  moreover have "\<forall>k < length ops. chunk_start (ops ! k) = sum_list (map chunk_length (take k ops))"
    unfolding ops using operations_contiguous by blast
  moreover have "\<forall>i j. i < j \<and> j < length ops \<longrightarrow>
          chunk_start (ops ! i) + chunk_length (ops ! i) \<le> chunk_start (ops ! j)"
    unfolding ops using operations_ordered [OF assms(2)] by blast
  moreover have "(\<Union>c \<in> set ops. {chunk_start c ..< chunk_start c + chunk_length c}) = {0 ..< S}"
    unfolding ops by (rule operations_cover [OF assms(2,1)])
  moreover have "\<forall>c \<in> set ops. 0 < chunk_length c \<and> chunk_length c \<le> C"
    unfolding ops using operations_length_range [OF assms(2)] by blast
  moreover have "sum_list (map chunk_length ops) = S"
    unfolding ops by (rule sum_operations [OF assms(2,1)])
  moreover have "ops \<noteq> [] \<longrightarrow> chunk_length (last ops) = S - (int (length ops) - 1) * C"
    unfolding ops using operations_last by blast
  ultimately show ?thesis
    by blast
qed

lemma orchestrator_result:
  assumes "rangeSize options = Some C" and "0 < C" and "C \<le> FILE_RANGE_MAX_SIZE_BYTES"
    and "uploadResetableStream ctx S options = (Inr ops, t)
         \<or> UploadSeekableBlob ctx S options = (Inr ops, t)"
  shows "ops = uploadResetableStream_operations S C" and "t = [CreateReq S]"
  using assms
  by (auto simp: uploadResetableStream_def UploadSeekableBlob_def or_default_def create_def
        accepted_def UploadSeekableBlob_operations_eq Let_def split: if_splits)

text \<open>
  C1. For every file size \<open>S \<ge> 0\<close> and chunk size \<open>0 < C \<le> FILE_RANGE_MAX_SIZE_BYTES\<close>, the
  operations that \<^verbatim>\<open>uploadResetableStream\<close> and \<^verbatim>\<open>UploadSeekableBlob\<close> hand to their batch
  are exactly \<open>ceil (S / C)\<close> many; every chunk starts where the chunks before it end
  (the first at 0), so they are contiguous and do not overlap; together they cover
  exactly \<open>[0, S)\<close>; every length is positive and at most \<open>C\<close>; the lengths sum to \<open>S\<close>;
  and the last chunk has length \<open>S - (chunks - 1) * C\<close>. The one request issued before
  is the create request for \<open>S\<close>. Both orchestrators get that far whenever the
  parallelism option is not negative, \<open>S\<close> is at most \<open>FILE_MAX_SIZE_BYTES\<close> and the
  service accepts the create request.
\<close>

theorem orchestrators_enqueue_partition:
  assumes "0 \<le> S" and "0 < C" and "C \<le> FILE_RANGE_MAX_SIZE_BYTES"
    and "rangeSize options = Some C"
  shows "(\<forall>ops t. uploadResetableStream ctx S options = (Inr ops, t)
                   \<or> UploadSeekableBlob ctx S options = (Inr ops, t) \<longrightarrow>
            t = [CreateReq S]
          \<and> int (length ops) = \<lceil>(of_int S :: rat) / of_int C\<rceil>
          \<and> (\<forall>k < length ops.
                chunk_start (ops ! k) = sum_list (map chunk_length (take k ops)))
          \<and> (\<forall>i j. i < j \<and> j < length ops \<longrightarrow>
                chunk_start (ops ! i) + chunk_length (ops ! i) \<le> chunk_start (ops ! j))
          \<and> (\<Union>c \<in> set ops. {chunk_start c ..< chunk_start c + chunk_length c}) = {0 ..< S}
          \<and> (\<forall>c \<in> set ops. 0 < chunk_length c \<and> chunk_length c \<le> C)
          \<and> sum_list (map chunk_length ops) = S
          \<and> (ops \<noteq> [] \<longrightarrow> chunk_length (last ops) = S - (int (length ops) - 1) * C))
    \<and> (0 \<le> or_default (parallelism options) DEFAULT_HIGH_LEVEL_PARALLELISM
        \<and> S \<le> FILE_MAX_SIZE_BYTES \<and> ctx_create ctx S \<longrightarrow>
          (\<exists>ops. uploadResetableStream ctx S options = (Inr ops, [CreateReq S])
                \<and> UploadSeekableBlob ctx S options = (Inr ops, [CreateReq S])))"
proof -
  have enqueued: "t = [CreateReq S]
          \<and> int (length ops) = \<lceil>(of_int S :: rat) / of_int C\<rceil>
          \<and> (\<forall>k < length ops.
                chunk_start (ops ! k) = sum_list (map chunk_length (take k ops)))
          \<and> (\<forall>i j. i < j \<and> j < length ops \<longrightarrow>
                chunk_start (ops ! i) + chunk_length (ops ! i) \<le> chunk_start (ops ! j))
          \<and> (\<Union>c \<in> set ops. {chunk_start c ..< chunk_start c + chunk_length c}) = {0 ..< S}
          \<and> (\<forall>c \<in> set ops. 0 < chunk_length c \<and> chunk_length c \<le> C)
          \<and> sum_list (map chunk_length ops) = S
          \<and> (ops \<noteq> [] \<longrightarrow> chunk_length (last ops) = S - (int (length ops) - 1) * C)"
    if run: "uploadResetableStream ctx S options = (Inr ops, t)
               \<or> UploadSeekableBlob ctx S options = (Inr ops, t)"
    for ops t
  proof -
    have mem: "ops \<in> {uploadResetableStream_operations S C, UploadSeekableBlob_operations S C}"
      using orchestrator_result(1) [OF assms(4,2,3) run] by simp
    show ?thesis
      by (rule conjI [OF orchestrator_result(2) [OF assms(4,2,3) run]
            operations_partition [OF assms(1,2,3) mem]])
  qed
  have reached: "\<exists>ops. uploadResetableStream ctx S options = (Inr ops, [CreateReq S])
                \<and> UploadSeekableBlob ctx S options = (Inr ops, [CreateReq S])"
    if "0 \<le> or_default (parallelism options) DEFAULT_HIGH_LEVEL_PARALLELISM
        \<and> S \<le> FILE_MAX_SIZE_BYTES \<and> ctx_create ctx S"
    using that uploadResetableStream_enqueues [OF assms(4,2,3) _ assms(1), of ctx]
    by (simp add: UploadSeekableBlob_operations_eq)
  show ?thesis
    using enqueued reached by blast
qed

theorem orchestrators_enqueue_partition_witness:
  "uploadResetableStream (accepting 0) 10 \<lparr>rangeSize = Some 4, parallelism = None, progress = True\<rparr>
     = (Inr [\<lparr>chunk_start = 0, chunk_length = 4\<rparr>, \<lparr>chunk_start = 4, chunk_length = 4\<rparr>,
             \<lparr>chunk_start = 8, chunk_length = 2\<rparr>], [CreateReq 10])
   \<and> UploadSeekableBlob (accepting 0) 10 \<lparr>rangeSize = Some 4, parallelism = None, progress = True\<rparr>
     = (Inr [\<lparr>chunk_start = 0, chunk_length = 4\<rparr>, \<lparr>chunk_start = 4, chunk_length = 4\<rparr>,
             \<lparr>chunk_start = 8, chunk_length = 2\<rparr>], [CreateReq 10])
   \<and> int (length [\<lparr>chunk_start = 0, chunk_length = 4\<rparr>, \<lparr>chunk_start = 4, chunk_length = 4\<rparr>,
             \<lparr>chunk_start = 8, chunk_length = (2::int)\<rparr>]) = \<lceil>(10 :: rat) / 4\<rceil>
   \<and> sum_list (map chunk_length [\<lparr>chunk_start = 0, chunk_length = 4\<rparr>,
        \<lparr>chunk_start = 4, chunk_length = 4\<rparr>, \<lparr>chunk_start = 8, chunk_length = 2\<rparr>]) = 10"
proof -
  let ?options = "\<lparr>rangeSize = Some 4, parallelism = None, progress = True\<rparr>"
  let ?ops = "[\<lparr>chunk_start = 0, chunk_length = 4\<rparr>, \<lparr>chunk_start = 4, chunk_length = 4\<rparr>,
             \<lparr>chunk_start = 8, chunk_length = (2::int)\<rparr>]"
  have stream: "uploadResetableStream (accepting 0) 10 ?options = (Inr ?ops, [CreateReq 10])"
    by (simp add: uploadResetableStream_def uploadResetableStream_operations_def upto.simps
          or_default_def create_def accepted_def accepting_def
          FILE_RANGE_MAX_SIZE_BYTES_def FILE_MAX_SIZE_BYTES_def DEFAULT_HIGH_LEVEL_PARALLELISM_def)
  have blob: "UploadSeekableBlob (accepting 0) 10 ?options = (Inr ?ops, [CreateReq 10])"
    by (simp add: UploadSeekableBlob_def UploadSeekableBlob_operations_def upto.simps
          or_default_def create_def accepted_def accepting_def
          FILE_RANGE_MAX_SIZE_BYTES_def FILE_MAX_SIZE_BYTES_def DEFAULT_HIGH_LEVEL_PARALLELISM_def)
  have h: "(0::int) \<le> 10" "(0::int) < 4" "4 \<le> FILE_RANGE_MAX_SIZE_BYTES"
      "rangeSize ?options = Some 4"
    by (simp_all add: FILE_RANGE_MAX_SIZE_BYTES_def)
  have valid: "0 \<le> or_default (parallelism ?options) DEFAULT_HIGH_LEVEL_PARALLELISM
      \<and> 10 \<le> FILE_MAX_SIZE_BYTES \<and> ctx_create (accepting 0) 10"
    by (simp add: or_default_def DEFAULT_HIGH_LEVEL_PARALLELISM_def FILE_MAX_SIZE_BYTES_def
          accepting_def)
  note reached = orchestrators_enqueue_partition [OF h, of "accepting 0", THEN conjunct2,
      rule_format, OF valid]
  note enqueued = orchestrators_enqueue_partition [OF h, of "accepting 0", THEN conjunct1,
      rule_format, OF disjI2 [OF blob]]
  have "int (length ?ops) = \<lceil>(of_int 10 :: rat) / of_int 4\<rceil>"
    by (rule enqueued [THEN conjunct2, THEN conjunct1])
  moreover have "sum_list (map chunk_length ?ops) = 10"
    by (rule enqueued [THEN conjunct2, THEN conjunct2, THEN conjunct2, THEN conjunct2,
          THEN conjunct2, THEN conjunct2, THEN conjunct1])
  ultimately show ?thesis
    using stream blob reached by simp
qed

section \<open>Progress of the chunked uploads\<close>

lemma upload_operation_cases:
  "(\<exists>e. fst (upload_operation ctx options c st) = Inl e)
   \<or> fst (upload_operation ctx options c st) = Inr (add_progress (progress options) (chunk_length c) st)"
  by (simp add: upload_operation_def split: prod.splits sum.splits)

lemma add_progress_simps:
  "transferProgress (add_progress p n st) = transferProgress st + n"
  "loadedBytes (add_progress p n st) =
     (if p then loadedBytes st @ [transferProgress st + n] else loadedBytes st)"
  by (simp_all add: add_progress_def Let_def)

lemma add_progress_invariant:
  assumes "progress_invariant st" "0 < n"
  shows "progress_invariant (add_progress p n st)"
  using assms
  by (auto simp: progress_invariant_def add_progress_simps sorted_wrt_append)

lemma batch_do_invariant:
  assumes "\<forall>c \<in> set cs. 0 < chunk_length c" "progress_invariant st"
  shows "progress_invariant (snd (batch_do ctx options cs (err, st)))"
  using assms
proof (induction cs arbitrary: err st)
  case Nil
  then show ?case by simp
next
  case (Cons c cs)
  from upload_operation_cases [of ctx options c st] show ?case
  proof
    assume "\<exists>e. fst (upload_operation ctx options c st) = Inl e"
    then show ?thesis
      using Cons by auto
  next
    assume "fst (upload_operation ctx options c st) =
              Inr (add_progress (progress options) (chunk_length c) st)"
    then show ?thesis
      using Cons.IH [of "add_progress (progress options) (chunk_length c) st" err] Cons.prems
      by (simp add: add_progress_invariant)
  qed
qed

lemma fold_add_progress_total:
  "transferProgress (fold (\<lambda>c. add_progress p (chunk_length c)) cs st) =
     transferProgress st + sum_list (map chunk_length cs)"
  by (induction cs arbitrary: st) (simp_all add: add_progress_simps)

lemma fold_add_progress_loaded:
  "loadedBytes (fold (\<lambda>c. add_progress True (chunk_length c)) cs st) =
     loadedBytes st @
       map (\<lambda>k. transferProgress st + sum_list (map chunk_length (take (Suc k) cs)))
         [0 ..< length cs]"
proof (induction cs arbitrary: st)
  case Nil
  show ?case by simp
next
  case (Cons c cs)
  have "map (\<lambda>k. transferProgress st + sum_list (map chunk_length (take (Suc k) (c # cs))))
          [0 ..< length (c # cs)] =
        (transferProgress st + chunk_length c)
          # map (\<lambda>k. transferProgress st + chunk_length c
                        + sum_list (map chunk_length (take (Suc k) cs))) [0 ..< length cs]"
    by (simp add: map_upt_Suc add.assoc del: upt_Suc)
  then show ?case
    using Cons.IH [of "add_progress True (chunk_length c) st"]
    by (simp add: add_progress_simps del: upt_Suc)
qed

lemma fold_add_progress_silent:
  "loadedBytes (fold (\<lambda>c. add_progress False (chunk_length c)) cs st) = loadedBytes st"
  by (induction cs arbitrary: st) (simp_all add: add_progress_simps)

lemma sum_list_settled:
  assumes "mset settled = mset ops"
  shows "sum_list (map chunk_length settled) = sum_list (map chunk_length ops)"
proof -
  have "mset (map chunk_length settled) = mset (map chunk_length ops)"
    using assms by simp
  then show ?thesis
    by (metis sum_mset_sum_list)
qed

lemma filter_eq_distinct:
  "distinct xs \<Longrightarrow> x \<in> set xs \<Longrightarrow> length (filter (\<lambda>v. v = x) xs) = 1"
  by (induction xs) (auto simp: filter_empty_conv)

lemma upload_operation_uploads:
  "uploads ctx c \<Longrightarrow> fst (upload_operation ctx options c st) =
      Inr (add_progress (progress options) (chunk_length c) st)"
  "\<not> uploads ctx c \<Longrightarrow> \<exists>e. fst (upload_operation ctx options c st) = Inl e"
  by (auto simp: uploads_def upload_operation_def split: prod.splits sum.splits)

lemma batch_do_run:
  assumes "batch_do ctx options cs (err, st) = (err', st')"
  shows "st' = fold (\<lambda>c. add_progress (progress options) (chunk_length c))
                 (filter (uploads ctx) cs) st
         \<and> (err' = None \<longleftrightarrow> err = None \<and> (\<forall>c \<in> set cs. uploads ctx c))"
  using assms
proof (induction cs arbitrary: err st)
  case Nil
  then show ?case by simp
next
  case (Cons c cs)
  show ?case
  proof (cases "uploads ctx c")
    case True
    then have "batch_do ctx options cs
                 (err, add_progress (progress options) (chunk_length c) st) = (err', st')"
      using Cons.prems upload_operation_uploads(1) [of ctx c options st] by simp
    from Cons.IH [OF this] show ?thesis
      using True by simp
  next
    case False
    then obtain e where e: "fst (upload_operation ctx options c st) = Inl e"
      using upload_operation_uploads(2) by blast
    then have "batch_do ctx options cs
                 (case err of None \<Rightarrow> Some e | Some e0 \<Rightarrow> Some e0, st) = (err', st')"
      using Cons.prems by simp
    from Cons.IH [OF this] show ?thesis
      using False by (auto split: option.splits)
  qed
qed

lemma progress_invariant_initial: "progress_invariant initial_state"
  by (simp add: progress_invariant_def initial_state_def)

text \<open>
  C7. In the chunked upload orchestrators every invocation of the progress callback
  reports the cumulative total of the bytes of the chunks uploaded so far; the reported
  values increase (strictly, hence they are non-decreasing and pairwise distinct) in
  whatever order the chunks settle, also when some uploads fail; and when all chunks have
  settled without error the counter equals the total size \<open>S\<close>, which for \<open>S > 0\<close> is the
  last value reported and is reported exactly once. The run below is the 10 MB upload in
  4 MB chunks of the specification, its chunks settling out of order.
\<close>

theorem upload_progress_cumulative:
  assumes "0 \<le> S" and "0 < C" and "C \<le> FILE_RANGE_MAX_SIZE_BYTES"
    and "ops \<in> {uploadResetableStream_operations S C, UploadSeekableBlob_operations S C}"
    and "set settled \<subseteq> set ops"
    and "batch_do ctx options settled (None, initial_state) = (err, st)"
  shows "loadedBytes st =
           (if progress options
            then map (\<lambda>k. sum_list (map chunk_length
                                      (take (Suc k) (filter (uploads ctx) settled))))
                   [0 ..< length (filter (uploads ctx) settled)]
            else [])
    \<and> sorted (loadedBytes st) \<and> distinct (loadedBytes st)
    \<and> (err = None \<and> mset settled = mset ops \<longrightarrow>
          transferProgress st = S
          \<and> (progress options \<and> 0 < S \<longrightarrow>
               last (loadedBytes st) = S
               \<and> length (filter (\<lambda>v. v = S) (loadedBytes st)) = 1))"
proof -
  have ops: "ops = uploadResetableStream_operations S C"
    using assms(4) by (auto simp: UploadSeekableBlob_operations_eq)
  let ?uploaded = "filter (uploads ctx) settled"
  let ?add = "\<lambda>c. add_progress (progress options) (chunk_length c)"
  have run: "st = fold ?add ?uploaded initial_state"
      and err: "err = None \<longleftrightarrow> (\<forall>c \<in> set settled. uploads ctx c)"
    using batch_do_run [OF assms(6)] by simp_all
  have loaded: "loadedBytes st =
           (if progress options
            then map (\<lambda>k. sum_list (map chunk_length (take (Suc k) ?uploaded)))
                   [0 ..< length ?uploaded]
            else [])"
  proof (cases "progress options")
    case True
    then show ?thesis
      using fold_add_progress_loaded [of ?uploaded initial_state]
      by (simp add: run initial_state_def)
  next
    case False
    then show ?thesis
      using fold_add_progress_silent [of ?uploaded initial_state]
      by (simp add: run initial_state_def)
  qed
  have positive: "\<forall>c \<in> set settled. 0 < chunk_length c"
    using assms(5) operations_length_range [OF assms(2), of _ S] by (auto simp: ops)
  have inv: "progress_invariant st"
    using batch_do_invariant [OF positive progress_invariant_initial, of ctx options None]
    by (simp add: assms(6))
  then have sorted: "sorted (loadedBytes st)" "distinct (loadedBytes st)"
    by (simp_all add: progress_invariant_def strict_sorted_iff)
  have complete: "transferProgress st = S
          \<and> (progress options \<and> 0 < S \<longrightarrow>
               last (loadedBytes st) = S
               \<and> length (filter (\<lambda>v. v = S) (loadedBytes st)) = 1)"
    if ok: "err = None" and all: "mset settled = mset ops"
  proof -
    have same: "?uploaded = settled"
      using ok err by simp
    have total: "sum_list (map chunk_length settled) = S"
      using sum_list_settled [OF all] sum_operations [OF assms(2,1)] by (simp add: ops)
    have tp: "transferProgress st = S"
      using fold_add_progress_total [of "progress options" settled initial_state] total
      by (simp add: run same initial_state_def)
    have "last (loadedBytes st) = S \<and> length (filter (\<lambda>v. v = S) (loadedBytes st)) = 1"
      if p: "progress options" and S: "0 < S"
    proof -
      have ne: "settled \<noteq> []"
        using total S by auto
      then have "last (loadedBytes st) = S"
        using loaded p total by (simp add: same last_map del: upt_Suc)
      moreover have "loadedBytes st \<noteq> []"
        using loaded p ne by (simp add: same)
      ultimately have "S \<in> set (loadedBytes st)"
        using last_in_set by metis
      then show ?thesis
        using filter_eq_distinct [OF sorted(2)] \<open>last (loadedBytes st) = S\<close> by simp
    qed
    then show ?thesis
      using tp by simp
  qed
  show ?thesis
    using loaded sorted complete by simp
qed

theorem upload_progress_cumulative_witness:
  "uploadResetableStream_operations 10485760 4194304 =
     [\<lparr>chunk_start = 0, chunk_length = 4194304\<rparr>,
      \<lparr>chunk_start = 4194304, chunk_length = 4194304\<rparr>,
      \<lparr>chunk_start = 8388608, chunk_length = 2097152\<rparr>]
   \<and> batch_do (accepting 0) \<lparr>rangeSize = Some 4194304, parallelism = Some 3, progress = True\<rparr>
       [\<lparr>chunk_start = 8388608, chunk_length = 2097152\<rparr>,
        \<lparr>chunk_start = 0, chunk_length = 4194304\<rparr>,
        \<lparr>chunk_start = 4194304, chunk_length = 4194304\<rparr>] (None, initial_state)
     = (None, \<lparr>transferProgress = 10485760, loadedBytes = [2097152, 6291456, 10485760]\<rparr>)
   \<and> sorted [2097152, 6291456, 10485760 :: int]
   \<and> length (filter (\<lambda>v. v = 10485760) [2097152, 6291456, 10485760 :: int]) = 1"
proof -
  have ops: "uploadResetableStream_operations 10485760 4194304 =
     [\<lparr>chunk_start = 0, chunk_length = 4194304\<rparr>,
      \<lparr>chunk_start = 4194304, chunk_length = 4194304\<rparr>,
      \<lparr>chunk_start = 8388608, chunk_length = 2097152\<rparr>]"
    by (simp add: uploadResetableStream_operations_def upto.simps)
  have run: "batch_do (accepting 0)
       \<lparr>rangeSize = Some 4194304, parallelism = Some 3, progress = True\<rparr>
       [\<lparr>chunk_start = 8388608, chunk_length = 2097152\<rparr>,
        \<lparr>chunk_start = 0, chunk_length = 4194304\<rparr>,
        \<lparr>chunk_start = 4194304, chunk_length = 4194304\<rparr>] (None, initial_state)
     = (None, \<lparr>transferProgress = 10485760, loadedBytes = [2097152, 6291456, 10485760]\<rparr>)"
    by (simp add: upload_operation_def uploadRange_def accepted_def accepting_def
          add_progress_def initial_state_def FILE_RANGE_MAX_SIZE_BYTES_def)
  have h: "(0::int) \<le> 10485760" "(0::int) < 4194304" "4194304 \<le> FILE_RANGE_MAX_SIZE_BYTES"
    by (simp_all add: FILE_RANGE_MAX_SIZE_BYTES_def)
  have mem: "uploadResetableStream_operations 10485760 4194304 \<in>
     {uploadResetableStream_operations 10485760 4194304,
      UploadSeekableBlob_operations 10485760 4194304}"
    by (rule insertI1)
  have sub: "set [\<lparr>chunk_start = 8388608, chunk_length = 2097152\<rparr>,
        \<lparr>chunk_start = 0, chunk_length = 4194304\<rparr>,
        \<lparr>chunk_start = 4194304, chunk_length = 4194304\<rparr>]
        \<subseteq> set (uploadResetableStream_operations 10485760 4194304)"
    by (simp add: ops)
  have perm: "mset [\<lparr>chunk_start = 8388608, chunk_length = 2097152\<rparr>,
        \<lparr>chunk_start = 0, chunk_length = 4194304\<rparr>,
        \<lparr>chunk_start = 4194304, chunk_length = 4194304\<rparr>]
        = mset (uploadResetableStream_operations 10485760 4194304)"
    by (simp add: ops)
  note cumulative = upload_progress_cumulative [OF h mem sub run]
  have "sorted [2097152, 6291456, 10485760 :: int]
     \<and> length (filter (\<lambda>v. v = 10485760) [2097152, 6291456, 10485760 :: int]) = 1"
    using cumulative [THEN conjunct2, THEN conjunct1]
      cumulative [THEN conjunct2, THEN conjunct2, THEN conjunct2] perm
    by simp
  then show ?thesis
    using ops run by simp
qed

section \<open>The reopen factory of download\<close>

text \<open>
  C6. The factory that \<^verbatim>\<open>download\<close> hands to the \<^verbatim>\<open>FileDownloadResponse\<close>, called with a
  position \<open>start\<close>, issues exactly one download request, for the range that begins at
  \<open>start\<close> and has \<open>count = offset + contentLength - start\<close>, so that it ends where the
  original range ends; \<open>contentLength\<close> is the content length of the first response.
\<close>

theorem download_reopen_range:
  assumes "download ctx offset cnt options = (Inr (NodeResponse r), t)"
  shows "fdr_offset r = offset
    \<and> t = [DownloadReq (if offset = 0 \<and> falsy cnt then None
                         else Some \<lparr>range_offset = offset, range_count = cnt\<rparr>)]
    \<and> ctx_download ctx (if offset = 0 \<and> falsy cnt then None
                         else Some \<lparr>range_offset = offset, range_count = cnt\<rparr>)
        = Some (Some (fdr_count r))
    \<and> (\<forall>start. snd (getter r start) =
          [DownloadReq (Some \<lparr>range_offset = start,
                              range_count = Some (offset + fdr_count r - start)\<rparr>)])
    \<and> (\<forall>start. start + (offset + fdr_count r - start) = fdr_offset r + fdr_count r)"
  using assms
  by (auto simp: download_def download_getter_def Let_def
        split: if_splits option.splits)

theorem download_reopen_range_witness:
  "\<exists>r. download (accepting 100) 10 (Some 50) \<lparr>maxRetryRequests = None, rangeGetContentMD5 = False\<rparr>
         = (Inr (NodeResponse r), [DownloadReq (Some \<lparr>range_offset = 10, range_count = Some 50\<rparr>)])
       \<and> fdr_offset r = 10 \<and> fdr_count r = 50
       \<and> snd (getter r 30) =
            [DownloadReq (Some \<lparr>range_offset = 30, range_count = Some 30\<rparr>)]"
proof -
  define r where "r = \<lparr>getter = download_getter (accepting 100) 10 50, fdr_offset = 10,
      fdr_count = 50, fdr_maxRetryRequests = DEFAULT_MAX_DOWNLOAD_RETRY_REQUESTS\<rparr>"
  have run: "download (accepting 100) 10 (Some 50)
      \<lparr>maxRetryRequests = None, rangeGetContentMD5 = False\<rparr>
      = (Inr (NodeResponse r), [DownloadReq (Some \<lparr>range_offset = 10, range_count = Some 50\<rparr>)])"
    by (simp add: download_def falsy_def accepting_def r_def)
  have "fdr_count r = 50"
    by (simp add: r_def)
  then show ?thesis
    using download_reopen_range [OF run] run by (intro exI [of _ r]) simp
qed

section \<open>downloadToBuffer: validation\<close>

text \<open>
  C3. A call of \<^verbatim>\<open>downloadToBuffer\<close> with a specified \<open>count > 0\<close> and a buffer shorter
  than \<open>count\<close> fails with a RangeError and has issued no request.
\<close>

theorem downloadToBuffer_buffer_too_small:
  assumes "0 < c" and "int buffer_length < c"
  shows "\<exists>e. downloadToBuffer ctx buffer_length offset (Some c) options
               = (Inl (RangeError e), [])"
  using assms by (simp add: downloadToBuffer_def Let_def falsy_def or_default_def)

theorem downloadToBuffer_buffer_too_small_witness:
  "(0::int) < 10 \<and> int 9 < 10
   \<and> downloadToBuffer (accepting 100) 9 0 (Some 10)
        \<lparr>rangeSize = Some 4, parallelism = None, progress = False,
         maxRetryRequestsPerRange = None\<rparr>
      = (Inl (RangeError BufferTooSmall), [])"
proof -
  have h: "(0::int) < 10" "int 9 < 10"
    by simp_all
  have run: "downloadToBuffer (accepting 100) 9 0 (Some 10)
        \<lparr>rangeSize = Some 4, parallelism = None, progress = False,
         maxRetryRequestsPerRange = None\<rparr>
      = (Inl (RangeError BufferTooSmall), [])"
    by (simp add: downloadToBuffer_def falsy_def or_default_def
          DEFAULT_HIGH_LEVEL_PARALLELISM_def)
  show ?thesis
    using downloadToBuffer_buffer_too_small [OF h, of "accepting 100" 0
        "\<lparr>rangeSize = Some 4, parallelism = None, progress = False,
          maxRetryRequestsPerRange = None\<rparr>"] run
    by simp
qed

section \<open>downloadToBuffer: the chunk operations\<close>

text \<open>
  C2. The claim is that the chunk operations of \<^verbatim>\<open>downloadToBuffer\<close> request contiguous,
  non-overlapping ranges covering exactly \<open>[offset, offset + count)\<close>, each of its chunk's
  length. The code computes \<^verbatim>\<open>chunkEnd\<close> against \<^verbatim>\<open>count\<close> instead of
  \<^verbatim>\<open>offset + count\<close> and requests \<^verbatim>\<open>chunkEnd - off + 1\<close> bytes. With offset 0, count 10
  and range size 4 the requests are 5 bytes at 0, 5 bytes at 4 and 3 bytes at 8: they
  overlap and reach beyond byte 10. With offset 10, count 5 the operations ask for
  \<open>- 4\<close> and \<open>- 8\<close> bytes.
\<close>

theorem downloadToBuffer_chunk_requests:
  "downloadToBuffer (accepting 10) 10 0 (Some 10)
       \<lparr>rangeSize = Some 4, parallelism = None, progress = False,
        maxRetryRequestsPerRange = None\<rparr>
     = (Inr [\<lparr>download_offset = 0, download_count = 5, buffer_offset = 0, buffer_end = 4,
               loaded = 4\<rparr>,
             \<lparr>download_offset = 4, download_count = 5, buffer_offset = 4, buffer_end = 8,
               loaded = 4\<rparr>,
             \<lparr>download_offset = 8, download_count = 3, buffer_offset = 8, buffer_end = 10,
               loaded = 2\<rparr>], [])
   \<and> downloadToBuffer (accepting 100) 5 10 (Some 5)
       \<lparr>rangeSize = Some 4, parallelism = None, progress = False,
        maxRetryRequestsPerRange = None\<rparr>
     = (Inr [\<lparr>download_offset = 10, download_count = - 4, buffer_offset = 0,
               buffer_end = - 5, loaded = - 5\<rparr>,
             \<lparr>download_offset = 14, download_count = - 8, buffer_offset = 4,
               buffer_end = - 5, loaded = - 9\<rparr>], [])"
  by (simp add: downloadToBuffer_def falsy_def or_default_def downloadToBuffer_operation_def
        downloadToBuffer_loop.simps DEFAULT_HIGH_LEVEL_PARALLELISM_def)

text \<open>
  A count of 0 is falsy in both tests of \<^verbatim>\<open>count\<close> (lines 1123 and 1135): the call is
  the call without a count, it never ends with the "count option must be > 0" error, its
  first request is \<^verbatim>\<open>getProperties\<close> when the other options pass their checks, and the
  count it derives is \<open>contentLength - offset\<close>.
\<close>

lemma downloadToBuffer_count_zero_unspecified:
  "downloadToBuffer ctx buffer_length offset (Some 0) options
     = downloadToBuffer ctx buffer_length offset None options
   \<and> fst (downloadToBuffer ctx buffer_length offset (Some 0) options)
        \<noteq> Inl (RangeError CountNotPositive)
   \<and> (0 \<le> or_default (rangeSize options) FILE_RANGE_MAX_SIZE_BYTES \<and> 0 \<le> offset
        \<and> 0 \<le> or_default (parallelism options) DEFAULT_HIGH_LEVEL_PARALLELISM \<longrightarrow>
        snd (downloadToBuffer ctx buffer_length offset (Some 0) options) = [GetPropertiesReq]
        \<and> (\<forall>contentLength.
              ctx_getProperties ctx = Some contentLength \<and> offset \<le> contentLength
              \<and> contentLength - offset \<le> int buffer_length \<longrightarrow>
              fst (downloadToBuffer ctx buffer_length offset (Some 0) options)
                = Inr (downloadToBuffer_loop offset (contentLength - offset)
                         (or_default (rangeSize options) FILE_RANGE_MAX_SIZE_BYTES) offset)
              \<and> (offset < contentLength \<longrightarrow>
                   fst (downloadToBuffer ctx buffer_length offset (Some 0) options)
                     = fst (downloadToBuffer ctx buffer_length offset
                              (Some (contentLength - offset)) options))))"
proof -
  have same: "downloadToBuffer ctx buffer_length offset (Some 0) options
     = downloadToBuffer ctx buffer_length offset None options"
    by (simp add: downloadToBuffer_def falsy_def Let_def cong: if_cong)
  have accepted: "fst (downloadToBuffer ctx buffer_length offset (Some 0) options)
        \<noteq> Inl (RangeError CountNotPositive)"
    by (simp add: downloadToBuffer_def falsy_def Let_def split: option.splits cong: if_cong)
  have valid: "snd (downloadToBuffer ctx buffer_length offset (Some 0) options) = [GetPropertiesReq]
        \<and> (\<forall>contentLength.
              ctx_getProperties ctx = Some contentLength \<and> offset \<le> contentLength
              \<and> contentLength - offset \<le> int buffer_length \<longrightarrow>
              fst (downloadToBuffer ctx buffer_length offset (Some 0) options)
                = Inr (downloadToBuffer_loop offset (contentLength - offset)
                         (or_default (rangeSize options) FILE_RANGE_MAX_SIZE_BYTES) offset)
              \<and> (offset < contentLength \<longrightarrow>
                   fst (downloadToBuffer ctx buffer_length offset (Some 0) options)
                     = fst (downloadToBuffer ctx buffer_length offset
                              (Some (contentLength - offset)) options)))"
    if "0 \<le> or_default (rangeSize options) FILE_RANGE_MAX_SIZE_BYTES" "0 \<le> offset"
      "0 \<le> or_default (parallelism options) DEFAULT_HIGH_LEVEL_PARALLELISM"
    using that
    by (auto simp: downloadToBuffer_def falsy_def Let_def or_default_def
          split: option.splits)
  show ?thesis
    using same accepted valid by blast
qed

text \<open>
  C9. The claim is that a call of \<^verbatim>\<open>downloadToBuffer\<close> with \<open>count = 0\<close> is treated as one
  without a count: it issues \<^verbatim>\<open>getProperties\<close> and then downloads from \<open>offset\<close> to the
  end of the file. The first part holds (lemma above). The download that follows does
  not reach the end of the file when \<open>offset > 0\<close>, since each operation bounds
  \<^verbatim>\<open>chunkEnd\<close> by \<^verbatim>\<open>count\<close> instead of \<^verbatim>\<open>offset + count\<close>: for a file of 100 bytes,
  offset 10, a buffer of 90 bytes and range size 40 the derived count is 90 and the
  operations are \<^verbatim>\<open>download(10, 41)\<close> into buffer positions 0 to 40, \<^verbatim>\<open>download(50, 41)\<close>
  into 40 to 80, and \<^verbatim>\<open>download(90, 1)\<close> into the empty stretch 80 to 80. The buffer
  receives 80 of the 90 bytes; bytes 90 to 100 of the file are never copied.
\<close>

theorem downloadToBuffer_count_zero_offset:
  "downloadToBuffer (accepting 100) 90 10 (Some 0)
       \<lparr>rangeSize = Some 40, parallelism = None, progress = False,
        maxRetryRequestsPerRange = None\<rparr>
     = (Inr [\<lparr>download_offset = 10, download_count = 41, buffer_offset = 0, buffer_end = 40,
               loaded = 40\<rparr>,
             \<lparr>download_offset = 50, download_count = 41, buffer_offset = 40, buffer_end = 80,
               loaded = 40\<rparr>,
             \<lparr>download_offset = 90, download_count = 1, buffer_offset = 80, buffer_end = 80,
               loaded = 0\<rparr>], [GetPropertiesReq])"
  by (simp add: downloadToBuffer_def falsy_def or_default_def downloadToBuffer_operation_def
        downloadToBuffer_loop.simps accepting_def DEFAULT_HIGH_LEVEL_PARALLELISM_def)

section \<open>uploadStream\<close>

text \<open>
  C4. The claim is that \<^verbatim>\<open>uploadStream\<close> creates the file at the declared size and then
  fails if the stream turns out larger than that size, the outgoing handler raising an
  error instead of issuing the range upload. The file is created first. But the handler
  compares \<^verbatim>\<open>transferProgress + buffer.length\<close> with \<^verbatim>\<open>size\<close> (line 1229), and
  \<^verbatim>\<open>transferProgress\<close> grows only after the \<^verbatim>\<open>await\<close> of the range upload (line 1239),
  while the scheduler is given a concurrency limit of \<open>ceil (3 * maxBuffers / 4)\<close>
  handlers. For size 10, buffer size 8 and \<open>maxBuffers = 2\<close> the limit is 2: a stream of
  16 bytes fills two buffers, both handlers are called while the counter is still 0,
  both pass the comparison and both range uploads are issued, the second for bytes 8 to
  16 of a file of 10 bytes; after they settle the counter is 16. Only when the second
  handler is called after the first has settled does it raise the error.
\<close>

theorem uploadStream_stale_counter:
  "uploadStream (accepting 0) 10 8 2 =
     (Inr \<lparr>bufferSize = 8, maxBuffers = 2, sched_parallelism = 2\<rparr>, [CreateReq 10])
   \<and> outgoingHandler_call (accepting 0) 10 initial_state 8 0
        = (Inr (), [UploadRangeReq \<lparr>range_offset = 0, range_count = Some 8\<rparr> 8])
   \<and> outgoingHandler_call (accepting 0) 10 initial_state 8 8
        = (Inr (), [UploadRangeReq \<lparr>range_offset = 8, range_count = Some 8\<rparr> 8])
   \<and> outgoingHandler_settle \<lparr>rangeSize = None, parallelism = None, progress = True\<rparr> 8
        (outgoingHandler_settle \<lparr>rangeSize = None, parallelism = None, progress = True\<rparr> 8
           initial_state)
        = \<lparr>transferProgress = 16, loadedBytes = [8, 16]\<rparr>
   \<and> outgoingHandler_call (accepting 0) 10
        (outgoingHandler_settle \<lparr>rangeSize = None, parallelism = None, progress = True\<rparr> 8
           initial_state) 8 8
        = (Inl (RangeError StreamLargerThanFile), [])"
  by (simp add: uploadStream_def create_def accepted_def accepting_def outgoing_parallelism_def
        outgoingHandler_call_def outgoingHandler_settle_def add_progress_def uploadRange_def
        initial_state_def FILE_RANGE_MAX_SIZE_BYTES_def FILE_MAX_SIZE_BYTES_def ceiling_eq_iff)

text \<open>
  The limit \<^verbatim>\<open>Math.ceil((maxBuffers / 4) * 3)\<close> is at least 1 and at most \<open>maxBuffers\<close>,
  and strictly less from \<open>maxBuffers = 4\<close> on.
\<close>

lemma outgoing_parallelism_bounds:
  assumes "1 \<le> mb"
  shows "1 \<le> outgoing_parallelism mb" "outgoing_parallelism mb \<le> mb"
    "4 \<le> mb \<Longrightarrow> outgoing_parallelism mb < mb"
  using assms unfolding outgoing_parallelism_def by linarith+

text \<open>
  C5. The claim is that for every \<open>maxBuffers \<ge> 1\<close> accepted by \<^verbatim>\<open>uploadStream\<close> the
  concurrency limit passed to the scheduler is strictly less than \<open>maxBuffers\<close>, as the
  comment at lines 1244-1247 asks ("Parallelism should set a smaller value than
  maxBuffers"). For \<open>maxBuffers = 2\<close> the code passes \<open>ceil (3 / 2) = 2\<close> and for
  \<open>maxBuffers = 3\<close> it passes \<open>ceil (9 / 4) = 3\<close>, although 1 and 2 would have been
  smaller.
\<close>

theorem uploadStream_parallelism_not_smaller:
  "uploadStream (accepting 0) 10 4 2 =
     (Inr \<lparr>bufferSize = 4, maxBuffers = 2, sched_parallelism = 2\<rparr>, [CreateReq 10])
   \<and> uploadStream (accepting 0) 10 4 3 =
     (Inr \<lparr>bufferSize = 4, maxBuffers = 3, sched_parallelism = 3\<rparr>, [CreateReq 10])"
  by (simp add: uploadStream_def create_def accepted_def accepting_def outgoing_parallelism_def
        FILE_RANGE_MAX_SIZE_BYTES_def FILE_MAX_SIZE_BYTES_def ceiling_eq_iff)

text \<open>
  C10. The check of \<^verbatim>\<open>maxBuffers\<close> rejects negative values only: \<^verbatim>\<open>uploadStream\<close> ends
  with the "maxBuffers must be > 0." error exactly when the buffer size is valid and
  \<open>maxBuffers < 0\<close>. With \<open>maxBuffers = 0\<close> and a valid buffer size it goes on to create
  the file, and once the file is created it constructs its scheduler with
  \<open>maxBuffers = 0\<close> (and concurrency limit 0).
\<close>

theorem uploadStream_maxBuffers_zero:
  "(\<forall>t. uploadStream ctx fsize bsize mb = (Inl (RangeError MaxBuffersNotPositive), t) \<longleftrightarrow>
        0 < bsize \<and> bsize \<le> FILE_RANGE_MAX_SIZE_BYTES \<and> mb < 0 \<and> t = [])
   \<and> (0 < bsize \<and> bsize \<le> FILE_RANGE_MAX_SIZE_BYTES \<longrightarrow>
        snd (uploadStream ctx fsize bsize 0) = snd (create ctx fsize))
   \<and> (0 < bsize \<and> bsize \<le> FILE_RANGE_MAX_SIZE_BYTES
        \<and> 0 \<le> fsize \<and> fsize \<le> FILE_MAX_SIZE_BYTES \<and> ctx_create ctx fsize \<longrightarrow>
        uploadStream ctx fsize bsize 0 =
          (Inr \<lparr>bufferSize = bsize, maxBuffers = 0, sched_parallelism = 0\<rparr>,
           [CreateReq fsize]))"
  by (auto simp: uploadStream_def create_def accepted_def outgoing_parallelism_def
        split: if_splits prod.splits sum.splits)

theorem uploadStream_maxBuffers_zero_witness:
  "uploadStream (accepting 0) 10 4 0 =
     (Inr \<lparr>bufferSize = 4, maxBuffers = 0, sched_parallelism = 0\<rparr>, [CreateReq 10])
   \<and> uploadStream (accepting 0) 10 4 (- 1) = (Inl (RangeError MaxBuffersNotPositive), [])"
proof -
  have h: "(0::int) < 4 \<and> 4 \<le> FILE_RANGE_MAX_SIZE_BYTES \<and> (0::int) \<le> 10
      \<and> 10 \<le> FILE_MAX_SIZE_BYTES \<and> ctx_create (accepting 0) 10"
    by (simp add: FILE_RANGE_MAX_SIZE_BYTES_def FILE_MAX_SIZE_BYTES_def accepting_def)
  show ?thesis
    using uploadStream_maxBuffers_zero [of "accepting 0" 10 4 "- 1"] h
    by simp
qed

end
